theory Spec2Isabelle
  imports Main "HOL-Library.Multiset"
begin

section \<open>Python string primitives used by the profile executor\<close>

text \<open>
  A Python \<open>str\<close> is modelled as a \<open>string\<close>, each \<open>char\<close> read as the code point
  of the same number (0 to 255). The primitives below are the ones
  \<^verbatim>\<open>profileexecutor.py\<close> calls: \<^verbatim>\<open>str.strip()\<close>, \<^verbatim>\<open>str.split()\<close>,
  \<^verbatim>\<open>str.split(',')\<close>, \<^verbatim>\<open>str.join\<close>, \<^verbatim>\<open>str.lower()\<close> and the substring test
  \<^verbatim>\<open>a in b\<close>.
\<close>

definition is_space :: "char \<Rightarrow> bool" where
  \<comment> \<open>the characters \<^verbatim>\<open>str.isspace\<close> accepts below code point 256\<close>
  "is_space c = (c \<in> set [CHR 0x09, CHR 0x0A, CHR 0x0B, CHR 0x0C, CHR 0x0D,
       CHR 0x1C, CHR 0x1D, CHR 0x1E, CHR 0x1F, CHR 0x20, CHR 0x85, CHR 0xA0])"

definition lower_char :: "char \<Rightarrow> char" where
  \<comment> \<open>\<^verbatim>\<open>str.lower\<close> on one code point: A-Z and the Latin-1 capitals move up by 32\<close>
  "lower_char c =
     (let n = (of_char c :: nat)
      in if (65 \<le> n \<and> n \<le> 90) \<or> (192 \<le> n \<and> n \<le> 222 \<and> n \<noteq> 215)
         then char_of (n + 32) else c)"

definition py_lower :: "string \<Rightarrow> string" where
  "py_lower s = map lower_char s"

definition py_strip :: "string \<Rightarrow> string" where
  \<comment> \<open>\<^verbatim>\<open>s.strip()\<close>: whitespace removed at both ends\<close>
  "py_strip s = rev (dropWhile is_space (rev (dropWhile is_space s)))"

fun split_ws :: "string \<Rightarrow> string \<Rightarrow> string list" where
  \<comment> \<open>the scan of \<^verbatim>\<open>s.split()\<close>: the first argument is the word being read\<close>
  "split_ws w [] = (if w = [] then [] else [w])"
| "split_ws w (c # cs) =
     (if is_space c then (if w = [] then [] else [w]) @ split_ws [] cs
      else split_ws (w @ [c]) cs)"

definition py_split :: "string \<Rightarrow> string list" where
  \<comment> \<open>\<^verbatim>\<open>s.split()\<close>: the maximal runs of non-whitespace, in order\<close>
  "py_split s = split_ws [] s"

fun split_on :: "char \<Rightarrow> string \<Rightarrow> string \<Rightarrow> string list" where
  \<comment> \<open>the scan of \<^verbatim>\<open>s.split(sep)\<close> for a one-character separator; empty pieces are kept\<close>
  "split_on sep w [] = [w]"
| "split_on sep w (c # cs) =
     (if c = sep then w # split_on sep [] cs else split_on sep (w @ [c]) cs)"

definition py_split_sep :: "char \<Rightarrow> string \<Rightarrow> string list" where
  "py_split_sep sep s = split_on sep [] s"

fun py_join :: "string \<Rightarrow> string list \<Rightarrow> string" where
  \<comment> \<open>\<^verbatim>\<open>sep.join(ws)\<close>\<close>
  "py_join sep [] = []"
| "py_join sep [w] = w"
| "py_join sep (w # v # ws) = w @ sep @ py_join sep (v # ws)"

fun py_in :: "string \<Rightarrow> string \<Rightarrow> bool" where
  \<comment> \<open>\<^verbatim>\<open>a in b\<close> on strings: \<open>a\<close> occurs in \<open>b\<close> as a contiguous substring\<close>
  "py_in a [] = (a = [])"
| "py_in a (c # cs) = (take (length a) (c # cs) = a \<or> py_in a cs)"

section \<open>Expansion of optional brackets\<close>

text \<open>
  \<^verbatim>\<open>bracket_pattern.finditer(text)\<close> for the pattern \<^verbatim>\<open>\[([^\]]+)\]\<close>: the matches
  from left to right, none overlapping. A match starts at a \<^verbatim>\<open>[\<close>, takes one or more
  characters other than \<^verbatim>\<open>]\<close> and ends at the first \<^verbatim>\<open>]\<close> after them. Each match is
  the triple of \<^verbatim>\<open>match.start()\<close>, \<^verbatim>\<open>match.end()\<close> and \<^verbatim>\<open>match.group(1)\<close>; the first
  argument is the position of the rest of the text still to be scanned.
\<close>

fun finditer :: "nat \<Rightarrow> string \<Rightarrow> (nat \<times> nat \<times> string) list" where
  "finditer pos [] = []"
| "finditer pos (c # cs) =
     (if c = CHR ''[''
      then (let body = takeWhile (\<lambda>x. x \<noteq> CHR '']'') cs
            in if body \<noteq> [] \<and> length body < length cs
               then (pos, pos + length body + 2, body)
                    # finditer (pos + length body + 2) (drop (length body + 1) cs)
               else finditer (pos + 1) cs)
      else finditer (pos + 1) cs)"

datatype segment = Fixed string | Optional "string list"

definition slice :: "string \<Rightarrow> nat \<Rightarrow> nat \<Rightarrow> string" where
  \<comment> \<open>\<^verbatim>\<open>text[i:j]\<close> for \<open>0 \<le> i\<close>, \<open>0 \<le> j\<close>\<close>
  "slice s i j = take (j - i) (drop i s)"

fun build_segments :: "string \<Rightarrow> nat \<Rightarrow> (nat \<times> nat \<times> string) list \<Rightarrow> segment list" where
  \<comment> \<open>the loop over the matches, \<open>last_end\<close> passed along, and the text after the last match\<close>
  "build_segments text last_end [] =
     (if last_end < length text then [Fixed (drop last_end text)] else [])"
| "build_segments text last_end ((start, end, bracket_content) # matches) =
     (if start > last_end then [Fixed (slice text last_end start)] else [])
     @ Optional (map py_strip (py_split_sep CHR '','' bracket_content))
     # build_segments text end matches"

fun optional_segments :: "segment list \<Rightarrow> string list list" where
  \<comment> \<open>the alternatives of the segments tagged \<^verbatim>\<open>'optional'\<close>, in order\<close>
  "optional_segments [] = []"
| "optional_segments (Fixed _ # segs) = optional_segments segs"
| "optional_segments (Optional alternatives # segs) = alternatives # optional_segments segs"

definition choice_lists :: "segment list \<Rightarrow> string option list list" where
  \<comment> \<open>\<^verbatim>\<open>[None] + alternatives\<close> for each bracket\<close>
  "choice_lists segs = map (\<lambda>alternatives. None # map Some alternatives) (optional_segments segs)"

fun build_parts :: "segment list \<Rightarrow> string option list \<Rightarrow> nat \<Rightarrow> string list" where
  \<comment> \<open>the inner loop over the segments for one combination; the index is \<open>optional_idx\<close>\<close>
  "build_parts [] combination optional_idx = []"
| "build_parts (Fixed content # segs) combination optional_idx =
     content # build_parts segs combination optional_idx"
| "build_parts (Optional content # segs) combination optional_idx =
     (case combination ! optional_idx of None \<Rightarrow> [] | Some choice \<Rightarrow> [choice])
     @ build_parts segs combination (optional_idx + 1)"

definition normalize_ws :: "string \<Rightarrow> string" where
  \<comment> \<open>\<^verbatim>\<open>' '.join(variation.split())\<close>\<close>
  "normalize_ws v = py_join '' '' (py_split v)"

definition all_variations :: "segment list \<Rightarrow> string list" where
  \<comment> \<open>the value of \<^verbatim>\<open>variation\<close> for each element of \<^verbatim>\<open>itertools.product(*choice_lists)\<close>\<close>
  "all_variations segs =
     map (\<lambda>combination. normalize_ws (concat (build_parts segs combination 0)))
         (product_lists (choice_lists segs))"

definition variations_of :: "segment list \<Rightarrow> string list" where
  \<comment> \<open>\<^verbatim>\<open>if variation: variations.append(variation)\<close>\<close>
  "variations_of segs = filter (\<lambda>v. v \<noteq> []) (all_variations segs)"

definition segments_of :: "string \<Rightarrow> segment list" where
  "segments_of text = build_segments text 0 (finditer 0 text)"

definition expand_optional_brackets :: "string \<Rightarrow> string list" where
  "expand_optional_brackets text =
     (let matches = finditer 0 text
      in if matches = [] then [text]
         else (let segments = build_segments text 0 matches;
                   variations = variations_of segments
               in if variations \<noteq> [] then variations else [text]))"

section \<open>Profiles and the executor's state\<close>

text \<open>
  A profile is the dictionary \<^verbatim>\<open>{'name': ..., 'commands': [...]}\<close>; a command is
  \<^verbatim>\<open>{'name': ..., 'actions': [...], 'repeat': ..., 'async': ...}\<close>. The action records are
  interpreted by \<^verbatim>\<open>do_action\<close> only, so their type is left open.
\<close>

record 'a command =
  name :: string
  actions :: "'a list"
  repeat :: int
  async :: bool

record 'a profile =
  profile_name :: string
  commands :: "'a command list"

text \<open>
  \<^verbatim>\<open>CommandThread\<close>: the thread objects live in a store (\<open>threads\<close> below) and the
  registry \<^verbatim>\<open>m_cmd_threads\<close> maps a command name to the position of its thread there,
  since a thread replaced in the registry keeps running.
\<close>

record 'a CommandThread =
  m_actions :: "'a list"
  m_repeat :: int
  m_stop :: bool

text \<open>
  The exceptions the code catches with \<^verbatim>\<open>except Exception\<close>: \<^verbatim>\<open>AttributeError\<close> and any
  other subclass of \<^verbatim>\<open>Exception\<close>.
\<close>

datatype exn = AttributeError | OtherException

text \<open>
  The recognizer is the external engine (\<^verbatim>\<open>KaldiRecognizer\<close>). Of it the model keeps
  whether the object has a \<^verbatim>\<open>SetGrammar\<close> method, what a call of that method does for
  a given phrase list (raise, or return), and the phrase list a call that returned has
  installed. \<^verbatim>\<open>json.dumps\<close> of the list is the argument in the source; the model
  passes the list itself.
\<close>

record recognizer =
  has_SetGrammar :: bool
  SetGrammar_raises :: "string list \<Rightarrow> exn option"
  grammar :: "string list option"

record 'a executor =
  m_profile :: "'a profile option"
  ptl_keyboard_listener :: bool
  ptl_mouse_listener :: bool
  listening :: bool
  commands_list :: "string list"
  m_cmd_threads :: "string \<rightharpoonup> nat"
  threads :: "'a CommandThread list"
  m_stream :: "bool option"
  recognizer :: "recognizer option"
  grammar_supported :: bool
  grammar_warning_shown :: bool
  ignored_single_words :: "string list option"

text \<open>
  \<open>m_stream\<close> is \<open>None\<close> or the stream with its \<^verbatim>\<open>active\<close> flag;
  \<open>ignored_single_words\<close> is \<^verbatim>\<open>p_parent.m_config.get(Config.IGNORED_SINGLE_WORDS)\<close>,
  \<open>None\<close> when the key is absent. A function that can raise returns the exception
  beside the state, which Python has mutated up to the raise. Calls that only print,
  and the calls into \<^verbatim>\<open>sounddevice\<close>, \<^verbatim>\<open>keyboard\<close>, \<^verbatim>\<open>mouse\<close> and
  \<^verbatim>\<open>save_to_commands_file\<close>, are taken to return and leave these fields alone.
\<close>

section \<open>Building the command list\<close>

definition closes_bracket :: "string \<Rightarrow> bool" where
  \<comment> \<open>the lookahead \<^verbatim>\<open>[^\[]*\]\<close>: a \<^verbatim>\<open>]\<close> comes before any \<^verbatim>\<open>[\<close>\<close>
  "closes_bracket cs = (CHR '']'' \<in> set (takeWhile (\<lambda>x. x \<noteq> CHR ''['') cs))"

fun split_names :: "string \<Rightarrow> string \<Rightarrow> string list" where
  \<comment> \<open>the scan of \<^verbatim>\<open>re.split(r',(?![^\[]*\])', s)\<close>; the first argument is the piece being read\<close>
  "split_names w [] = [w]"
| "split_names w (c # cs) =
     (if c = CHR '','' \<and> \<not> closes_bracket cs then w # split_names [] cs
      else split_names (w @ [c]) cs)"

definition re_split_names :: "string \<Rightarrow> string list" where
  "re_split_names s = split_names [] s"

definition name_parts :: "'a command \<Rightarrow> string list" where
  \<comment> \<open>\<^verbatim>\<open>part.strip()\<close> for each part of \<^verbatim>\<open>w_command['name'].strip().lower()\<close>\<close>
  "name_parts w_command = map py_strip (re_split_names (py_lower (py_strip (name w_command))))"

definition command_variations :: "'a command \<Rightarrow> string list" where
  "command_variations w_command = concat (map expand_optional_brackets (name_parts w_command))"

definition profile_variations :: "'a profile \<Rightarrow> string list" where
  \<comment> \<open>the list the three nested loops of \<^verbatim>\<open>set_profile\<close> append to\<close>
  "profile_variations p = concat (map command_variations (commands p))"

definition sort_commands :: "string list \<Rightarrow> string list" where
  \<comment> \<open>\<^verbatim>\<open>commands_list.sort(key=len, reverse=True)\<close>: stable, longest first\<close>
  "sort_commands cl = sort_key (\<lambda>c. - int (length c)) cl"

section \<open>Grammar constraint\<close>

definition show_grammar_not_supported_warning :: "'a executor \<Rightarrow> 'a executor" where
  "show_grammar_not_supported_warning s = s\<lparr>grammar_supported := False\<rparr>"

definition SetGrammar :: "recognizer \<Rightarrow> string list \<Rightarrow> exn option \<times> recognizer" where
  "SetGrammar r g =
     (case SetGrammar_raises r g of
        Some e \<Rightarrow> (Some e, r)
      | None \<Rightarrow> (None, r\<lparr>grammar := Some g\<rparr>))"

definition apply_grammar_try :: "'a executor \<Rightarrow> recognizer \<Rightarrow> string list \<Rightarrow> exn option \<times> 'a executor" where
  \<comment> \<open>the body of the \<^verbatim>\<open>try\<close>\<close>
  "apply_grammar_try s r g =
     (if \<not> has_SetGrammar r then (None, show_grammar_not_supported_warning s)
      else (case SetGrammar r g of
              (Some e, r') \<Rightarrow> (Some e, s\<lparr>recognizer := Some r'\<rparr>)
            | (None, r') \<Rightarrow> (None, s\<lparr>recognizer := Some r', grammar_supported := True\<rparr>)))"

definition apply_grammar_constraint :: "'a executor \<Rightarrow> exn option \<times> 'a executor" where
  "apply_grammar_constraint s =
     (case recognizer s of
        None \<Rightarrow> (None, s)
      | Some r \<Rightarrow>
          if commands_list s = [] then (None, s)
          else (case apply_grammar_try s r (commands_list s) of
                  (None, s') \<Rightarrow> (None, s')
                | (Some AttributeError, s') \<Rightarrow> (None, show_grammar_not_supported_warning s')
                | (Some OtherException, s') \<Rightarrow> (None, show_grammar_not_supported_warning s')))"

section \<open>Stream control and \<^verbatim>\<open>set_profile\<close>\<close>

definition stop_ptl_listener :: "'a executor \<Rightarrow> 'a executor" where
  "stop_ptl_listener s = s\<lparr>ptl_keyboard_listener := False, ptl_mouse_listener := False\<rparr>"

definition stop :: "'a executor \<Rightarrow> exn option \<times> 'a executor" where
  \<comment> \<open>\<^verbatim>\<open>_stop\<close>; \<^verbatim>\<open>self.recognizer.FinalResult()\<close> raises when there is no recognizer\<close>
  "stop s =
     (if m_stream s \<noteq> None
      then (let s1 = (stop_ptl_listener s)\<lparr>m_stream := None\<rparr>
            in if recognizer s1 = None then (Some AttributeError, s1)
               else (None, s1\<lparr>listening := False\<rparr>))
      else (None, s))"

definition init_stream :: "'a executor \<Rightarrow> 'a executor" where
  "init_stream s = (if recognizer s = None then s else s\<lparr>m_stream := Some False\<rparr>)"

definition start_stream :: "'a executor \<Rightarrow> exn option \<times> 'a executor" where
  \<comment> \<open>\<^verbatim>\<open>_start_stream\<close>; \<^verbatim>\<open>self.m_stream.start()\<close> raises when no stream could be made\<close>
  "start_stream s =
     (let s1 = (if m_stream s = None then init_stream s else s)
      in if m_stream s1 = None then (Some AttributeError, s1)
         else (None, s1\<lparr>m_stream := Some True\<rparr>))"

definition set_profile :: "'a profile option \<Rightarrow> 'a executor \<Rightarrow> exn option \<times> 'a executor" where
  "set_profile p_profile s =
     (let was_listening = listening s
      in case (if was_listening then stop s else (None, s)) of
           (Some e, s1) \<Rightarrow> (Some e, s1)
         | (None, s1) \<Rightarrow>
             (let s2 = s1\<lparr>m_profile := p_profile, commands_list := []\<rparr>
              in case p_profile of
                   None \<Rightarrow> (None, s2)
                 | Some prof \<Rightarrow>
                     (let s3 = s2\<lparr>commands_list := profile_variations prof\<rparr>;
                          s4 = s3\<lparr>commands_list := sort_commands (commands_list s3)\<rparr>
                      in case apply_grammar_constraint s4 of
                           (Some e, s5) \<Rightarrow> (Some e, s5)
                         | (None, s5) \<Rightarrow>
                             if was_listening then start_stream s5 else (None, s5))))"

definition set_language :: "recognizer option \<Rightarrow> 'a executor \<Rightarrow> exn option \<times> 'a executor" where
  \<comment> \<open>the argument is \<open>None\<close> when \<^verbatim>\<open>get_language_code\<close> knows no code for the language, and
      otherwise the \<^verbatim>\<open>KaldiRecognizer\<close> that is constructed for it\<close>
  "set_language new_recognizer s =
     (case stop s of
        (Some e, s1) \<Rightarrow> (Some e, s1)
      | (None, s1) \<Rightarrow>
          (case new_recognizer of
             None \<Rightarrow> (None, s1)
           | Some r \<Rightarrow>
               (let s2 = s1\<lparr>recognizer := Some r\<rparr>
                in if commands_list s2 \<noteq> [] then apply_grammar_constraint s2 else (None, s2))))"

section \<open>Running commands\<close>

definition run_actions :: "('a \<Rightarrow> 's \<Rightarrow> 's) \<Rightarrow> 'a list \<Rightarrow> 's \<Rightarrow> 's" where
  \<comment> \<open>\<^verbatim>\<open>for w_action in actions: do_action(w_action)\<close>, the effect of \<^verbatim>\<open>do_action\<close> a parameter\<close>
  "run_actions do_action acts s = foldl (\<lambda>st a. do_action a st) s acts"

function sync_loop :: "('a \<Rightarrow> 's \<Rightarrow> 's) \<Rightarrow> 'a list \<Rightarrow> int \<Rightarrow> 's \<Rightarrow> 's" where
  \<comment> \<open>\<^verbatim>\<open>while w_repeat > 0\<close> of \<^verbatim>\<open>_do_command\<close>\<close>
  "sync_loop do_action acts w_repeat s =
     (if w_repeat > 0
      then sync_loop do_action acts (w_repeat - 1) (run_actions do_action acts s)
      else s)"
  by pat_completeness auto
termination
  by (relation "measure (\<lambda>(do_action, acts, w_repeat, s). nat w_repeat)") auto

function thread_loop :: "('a \<Rightarrow> 's \<Rightarrow> 's) \<Rightarrow> (nat \<Rightarrow> bool) \<Rightarrow> nat \<Rightarrow> 'a list \<Rightarrow> int \<Rightarrow> 's \<Rightarrow> 's" where
  \<comment> \<open>\<^verbatim>\<open>while not self.m_stop and w_repeat > 0\<close> of \<^verbatim>\<open>CommandThread.run\<close>; \<open>stop_at k\<close> is
      the value of \<^verbatim>\<open>m_stop\<close> the \<open>k\<close>-th test of the loop reads (other threads set it)\<close>
  "thread_loop do_action stop_at k acts w_repeat s =
     (if \<not> stop_at k \<and> w_repeat > 0
      then thread_loop do_action stop_at (k + 1) acts (w_repeat - 1) (run_actions do_action acts s)
      else s)"
  by pat_completeness auto
termination
  by (relation "measure (\<lambda>(do_action, stop_at, k, acts, w_repeat, s). nat w_repeat)") auto

definition CommandThread_run :: "('a \<Rightarrow> 's \<Rightarrow> 's) \<Rightarrow> (nat \<Rightarrow> bool) \<Rightarrow> 'a CommandThread \<Rightarrow> 's \<Rightarrow> 's" where
  "CommandThread_run do_action stop_at t s =
     thread_loop do_action stop_at 0 (m_actions t) (m_repeat t) s"

definition get_command_for_executing :: "'a executor \<Rightarrow> string \<Rightarrow> 'a command option" where
  \<comment> \<open>the first command of the profile one of whose variations, lower-cased, is the name\<close>
  "get_command_for_executing s cmd_name =
     (case m_profile s of
        None \<Rightarrow> None
      | Some p \<Rightarrow> find (\<lambda>w_command. cmd_name \<in> set (map py_lower (command_variations w_command)))
                       (commands p))"

definition do_command :: "('a \<Rightarrow> 'a executor \<Rightarrow> 'a executor) \<Rightarrow> string \<Rightarrow> 'a executor \<Rightarrow> 'a executor" where
  "do_command do_action p_cmd_name s =
     (case get_command_for_executing s p_cmd_name of
        None \<Rightarrow> s
      | Some w_command \<Rightarrow>
          if \<not> async w_command
          then sync_loop do_action (actions w_command) (max (repeat w_command) 1) s
          else s\<lparr>threads := threads s @ [\<lparr>m_actions = actions w_command,
                                            m_repeat = repeat w_command, m_stop = False\<rparr>],
                 m_cmd_threads := (m_cmd_threads s)(p_cmd_name \<mapsto> length (threads s))\<rparr>)"

definition stop_command :: "string \<Rightarrow> 'a executor \<Rightarrow> 'a executor" where
  "stop_command p_cmd_name s =
     (case m_cmd_threads s p_cmd_name of
        None \<Rightarrow> s
      | Some t \<Rightarrow> s\<lparr>threads := (threads s)[t := (threads s ! t)\<lparr>m_stop := True\<rparr>],
                    m_cmd_threads := (m_cmd_threads s)(p_cmd_name := None)\<rparr>)"

section \<open>From a transcript to a command\<close>

definition default_ignored_words :: "string list" where
  "default_ignored_words =
     [''the'', ''a'', ''an'', ''but'', ''their'', ''there'', ''they'', ''be'', ''to'', ''of'', ''and'']"

definition ignored_words_of :: "'a executor \<Rightarrow> string list" where
  \<comment> \<open>the configured list, or the default when it is absent or empty\<close>
  "ignored_words_of s =
     (let ignored_words = (case ignored_single_words s of None \<Rightarrow> [] | Some ws \<Rightarrow> ws)
      in if ignored_words = [] then default_ignored_words else ignored_words)"

definition is_ignored_single_word :: "'a executor \<Rightarrow> string \<Rightarrow> bool" where
  "is_ignored_single_word s result_string =
     (let words = py_split (py_strip result_string)
      in if length words \<noteq> 1 then False
         else py_lower result_string \<in> set (ignored_words_of s))"

fun first_match :: "string list \<Rightarrow> string \<Rightarrow> string option" where
  \<comment> \<open>the \<^verbatim>\<open>for\<close> loop of \<^verbatim>\<open>check_commands\<close> up to its \<^verbatim>\<open>break\<close>\<close>
  "first_match [] result_string = None"
| "first_match (command # rest) result_string =
     (if py_in command result_string then Some command else first_match rest result_string)"

definition check_commands :: "('a \<Rightarrow> 'a executor \<Rightarrow> 'a executor) \<Rightarrow> string \<Rightarrow> 'a executor
    \<Rightarrow> exn option \<times> 'a executor" where
  \<comment> \<open>\<^verbatim>\<open>self.recognizer.Result()\<close> raises when there is no recognizer\<close>
  "check_commands do_action result_string s =
     (case first_match (commands_list s) result_string of
        None \<Rightarrow> (None, s)
      | Some command \<Rightarrow>
          if recognizer s = None then (Some AttributeError, s)
          else (None, do_command do_action command s))"

definition listen_callback :: "('a \<Rightarrow> 'a executor \<Rightarrow> 'a executor) \<Rightarrow> string \<Rightarrow> 'a executor
    \<Rightarrow> exn option \<times> 'a executor" where
  \<comment> \<open>the second argument is the text \<^verbatim>\<open>get_listen_result\<close> returned\<close>
  "listen_callback do_action result_string s =
     (if result_string = [] then (None, s)
      else if is_ignored_single_word s result_string then (None, s)
      else check_commands do_action result_string s)"

section \<open>The executor as constructed, and example states\<close>

definition initial_executor :: "'a executor" where
  \<comment> \<open>the fields as \<^verbatim>\<open>__init__\<close> sets them, with nothing configured\<close>
  "initial_executor =
     \<lparr>m_profile = None, ptl_keyboard_listener = False, ptl_mouse_listener = False,
      listening = False, commands_list = [], m_cmd_threads = Map.empty, threads = [],
      m_stream = None, recognizer = None, grammar_supported = False,
      grammar_warning_shown = False, ignored_single_words = None\<rparr>"

definition down_running :: "nat executor" where
  \<comment> \<open>one asynchronous command, \<^verbatim>\<open>down\<close>, is registered as running\<close>
  "down_running =
     initial_executor\<lparr>threads := [\<lparr>m_actions = [7], m_repeat = 3, m_stop = False\<rparr>],
                      m_cmd_threads := [''down'' \<mapsto> 0]\<rparr>"

definition fire_hold_profile :: "nat profile" where
  \<comment> \<open>two commands with \<^verbatim>\<open>repeat\<close> 0: \<^verbatim>\<open>fire\<close> asynchronous, \<^verbatim>\<open>hold\<close> synchronous\<close>
  "fire_hold_profile =
     \<lparr>profile_name = ''p'',
      commands = [\<lparr>name = ''fire'', actions = [1, 2], repeat = 0, async = True\<rparr>,
                  \<lparr>name = ''hold'', actions = [1, 2], repeat = 0, async = False\<rparr>]\<rparr>"

definition fire_hold_loaded :: "nat executor" where
  "fire_hold_loaded = initial_executor\<lparr>m_profile := Some fire_hold_profile\<rparr>"


definition static_recognizer :: recognizer where
  \<comment> \<open>an engine whose \<^verbatim>\<open>SetGrammar\<close> raises, as a static graph model does\<close>
  "static_recognizer =
     \<lparr>has_SetGrammar = True, SetGrammar_raises = (\<lambda>g. Some OtherException), grammar = None\<rparr>"



definition capital_config :: "nat executor" where
  \<comment> \<open>the configuration lists the one stop-word \<^verbatim>\<open>The\<close>\<close>
  "capital_config = initial_executor\<lparr>ignored_single_words := Some [''The'']\<rparr>"

definition no_action :: "nat \<Rightarrow> nat executor \<Rightarrow> nat executor" where
  \<comment> \<open>a \<^verbatim>\<open>do_action\<close> with no effect on the executor, for the examples\<close>
  "no_action a s = s"

definition go_profile :: "nat profile" where
  \<comment> \<open>the commands \<^verbatim>\<open>go\<close> and \<^verbatim>\<open>go home\<close>, the shorter registered first\<close>
  "go_profile =
     \<lparr>profile_name = ''travel'',
      commands = [\<lparr>name = ''go'', actions = [1], repeat = 1, async = False\<rparr>,
                  \<lparr>name = ''go home'', actions = [2], repeat = 1, async = False\<rparr>]\<rparr>"

definition twice_profile :: "nat profile" where
  \<comment> \<open>one command whose two comma-alternates are the same phrase\<close>
  "twice_profile =
     \<lparr>profile_name = ''twice'',
      commands = [\<lparr>name = ''go, go'', actions = [1], repeat = 1, async = False\<rparr>]\<rparr>"

definition listening_executor :: "nat executor" where
  \<comment> \<open>continuous listening: a recognizer, an active stream\<close>
  "listening_executor =
     initial_executor\<lparr>listening := True, m_stream := Some True,
                      recognizer := Some static_recognizer\<rparr>"



section \<open>Notions used in the statements\<close>

definition has_bracket_span :: "string \<Rightarrow> bool" where
  \<comment> \<open>the text holds a \<^verbatim>\<open>[\<close>, then one or more characters other than \<^verbatim>\<open>]\<close>, then a \<^verbatim>\<open>]\<close>\<close>
  "has_bracket_span text =
     (\<exists>pre body post. text = pre @ [CHR ''[''] @ body @ [CHR '']''] @ post
        \<and> body \<noteq> [] \<and> CHR '']'' \<notin> set body)"

definition stream_has_recognizer :: "'a executor \<Rightarrow> bool" where
  \<comment> \<open>an invariant of the executor: \<^verbatim>\<open>_init_stream\<close> makes a stream only when there is a
      recognizer, and the recognizer, once set, is replaced but never cleared\<close>
  "stream_has_recognizer s = (m_stream s \<noteq> None \<longrightarrow> recognizer s \<noteq> None)"

definition grammar_flag_inv :: "bool \<Rightarrow> 'a executor \<Rightarrow> bool" where
  \<comment> \<open>an invariant of the executor. \<open>K\<close> says whether the class \<^verbatim>\<open>KaldiRecognizer\<close> of the
      installed engine has the method \<^verbatim>\<open>SetGrammar\<close>: every recognizer object agrees with
      it, a grammar is installed only through the method, and \<^verbatim>\<open>grammar_supported\<close> is
      set only after a call of the method has returned\<close>
  "grammar_flag_inv K s =
     ((grammar_supported s \<longrightarrow> K)
      \<and> (case recognizer s of
            None \<Rightarrow> True
          | Some r \<Rightarrow> has_SetGrammar r = K \<and> (grammar r \<noteq> None \<longrightarrow> K)))"

definition is_substring :: "string \<Rightarrow> string \<Rightarrow> bool" where
  \<comment> \<open>the first string occurs in the second one, contiguously\<close>
  "is_substring a b = (\<exists>pre post. b = pre @ a @ post)"



section \<open>The documented examples of the expansion\<close>

lemma expand_open_menu:
  "expand_optional_brackets ''open [the, a] menu [now]'' =
     [''open menu'', ''open menu now'', ''open the menu'', ''open the menu now'',
      ''open a menu'', ''open a menu now'']"
  by code_simp

lemma expand_power_up:
  "expand_optional_brackets ''power up [the ship, the engines]'' =
     [''power up'', ''power up the ship'', ''power up the engines'']"
  by code_simp

text \<open>
  C1. The expansion of \<^verbatim>\<open>open [the, a] menu [now]\<close> holds exactly the six phrases of the
  docstring and the expansion of \<^verbatim>\<open>power up [the ship, the engines]\<close> exactly the three,
  each once: a bracket gives its omission and each of its alternatives, and the brackets
  are combined by Cartesian product.
\<close>

theorem expand_documented_examples:
  "set (expand_optional_brackets ''open [the, a] menu [now]'') =
     {''open the menu now'', ''open a menu now'', ''open the menu'', ''open a menu'',
      ''open menu now'', ''open menu''}
   \<and> length (expand_optional_brackets ''open [the, a] menu [now]'') = 6
   \<and> set (expand_optional_brackets ''power up [the ship, the engines]'') =
     {''power up the ship'', ''power up the engines'', ''power up''}
   \<and> length (expand_optional_brackets ''power up [the ship, the engines]'') = 3"
  unfolding expand_open_menu expand_power_up by auto

section \<open>When the pattern matches\<close>

lemma takeWhile_close_length:
  "length (takeWhile (\<lambda>x. x \<noteq> CHR '']'') cs) < length cs \<Longrightarrow>
   \<exists>post. cs = takeWhile (\<lambda>x. x \<noteq> CHR '']'') cs @ CHR '']'' # post"
  by (induction cs) (auto split: if_splits)

lemma has_bracket_span_Cons: "has_bracket_span cs \<Longrightarrow> has_bracket_span (c # cs)"
proof -
  assume "has_bracket_span cs"
  then obtain pre b post where "cs = pre @ [CHR ''[''] @ b @ [CHR '']''] @ post" "b \<noteq> []" "CHR '']'' \<notin> set b"
    unfolding has_bracket_span_def by blast
  then have "c # cs = (c # pre) @ [CHR ''[''] @ b @ [CHR '']''] @ post \<and> b \<noteq> [] \<and> CHR '']'' \<notin> set b"
    by simp
  then show ?thesis unfolding has_bracket_span_def by blast
qed

lemma has_bracket_span_here:
  assumes "body = takeWhile (\<lambda>x. x \<noteq> CHR '']'') cs" "body \<noteq> []" "length body < length cs"
  shows "has_bracket_span (CHR ''['' # cs)"
proof -
  obtain post where "cs = body @ CHR '']'' # post"
    using takeWhile_close_length assms(1,3) by blast
  then have "CHR ''['' # cs = [] @ [CHR ''[''] @ body @ [CHR '']''] @ post" by simp
  moreover have "CHR '']'' \<notin> set body"
    unfolding assms(1) using set_takeWhileD by fastforce
  ultimately show ?thesis
    unfolding has_bracket_span_def using assms(2) by blast
qed

lemma finditer_nonempty_span:
  "finditer pos cs \<noteq> [] \<Longrightarrow> has_bracket_span cs"
proof (induction cs arbitrary: pos)
  case Nil
  then show ?case by simp
next
  case (Cons c cs')
  define body where "body = takeWhile (\<lambda>x. x \<noteq> CHR '']'') cs'"
  show ?case
  proof (cases "c = CHR ''['' \<and> body \<noteq> [] \<and> length body < length cs'")
    case True
    then show ?thesis
      using has_bracket_span_here[of body cs'] body_def by simp
  next
    case False
    then have "finditer pos (c # cs') = finditer (pos + 1) cs'"
      unfolding body_def by (auto simp: Let_def)
    then have "finditer (pos + 1) cs' \<noteq> []" using Cons.prems by simp
    then have "has_bracket_span cs'" by (rule Cons.IH)
    then show ?thesis by (rule has_bracket_span_Cons)
  qed
qed

lemma takeWhile_body: "CHR '']'' \<notin> set body \<Longrightarrow>
  takeWhile (\<lambda>x. x \<noteq> CHR '']'') (body @ CHR '']'' # post) = body"
  by (induction body) auto

lemma span_finditer_nonempty:
  "body \<noteq> [] \<Longrightarrow> CHR '']'' \<notin> set body \<Longrightarrow>
   finditer pos (pre @ [CHR ''[''] @ body @ [CHR '']''] @ post) \<noteq> []"
proof (induction pre arbitrary: pos)
  case Nil
  then show ?case by (simp add: Let_def takeWhile_body)
next
  case (Cons p pre)
  then show ?case by (simp add: Let_def)
qed

lemma finditer_empty_iff: "finditer pos cs = [] \<longleftrightarrow> \<not> has_bracket_span cs"
proof
  assume "finditer pos cs = []"
  show "\<not> has_bracket_span cs"
  proof
    assume "has_bracket_span cs"
    then obtain pre b post where "cs = pre @ [CHR ''[''] @ b @ [CHR '']''] @ post" "b \<noteq> []" "CHR '']'' \<notin> set b"
      unfolding has_bracket_span_def by blast
    then have "finditer pos cs \<noteq> []" using span_finditer_nonempty by blast
    then show False using \<open>finditer pos cs = []\<close> by simp
  qed
next
  assume "\<not> has_bracket_span cs"
  then show "finditer pos cs = []" using finditer_nonempty_span by blast
qed

section \<open>The fallbacks of the expansion\<close>

text \<open>
  C10. A text with no bracketed span is returned as it is, as the only phrase, with its
  whitespace untouched; and a text with a bracketed span all of whose variations come out
  empty is returned as it is too, brackets included, as the only phrase.
\<close>

theorem expand_fallback:
  "(\<not> has_bracket_span txt \<longrightarrow> expand_optional_brackets txt = [txt])
   \<and> (has_bracket_span txt \<and> (\<forall>v \<in> set (all_variations (segments_of txt)). v = [])
        \<longrightarrow> expand_optional_brackets txt = [txt])"
proof -
  have "variations_of (segments_of txt) = []"
    if "\<forall>v \<in> set (all_variations (segments_of txt)). v = []"
    using that unfolding variations_of_def by (simp add: filter_empty_conv)
  then show ?thesis
    unfolding expand_optional_brackets_def segments_of_def
    by (simp add: Let_def finditer_empty_iff)
qed

theorem expand_fallback_witness:
  "\<not> has_bracket_span ''open   menu''
   \<and> expand_optional_brackets ''open   menu'' = [''open   menu'']
   \<and> has_bracket_span ''[ ]''
   \<and> all_variations (segments_of ''[ ]'') = [[], []]
   \<and> expand_optional_brackets ''[ ]'' = [''[ ]'']"
proof -
  have "finditer 0 ''open   menu'' = []" by code_simp
  then have a: "\<not> has_bracket_span ''open   menu''"
    using finditer_empty_iff by blast
  have "finditer 0 ''[ ]'' \<noteq> []" by code_simp
  then have b: "has_bracket_span ''[ ]''"
    using finditer_empty_iff by blast
  have c: "all_variations (segments_of ''[ ]'') = [[], []]" by code_simp
  show ?thesis
    using a b c expand_fallback [of "''open   menu''"] expand_fallback [of "''[ ]''"]
    by simp
qed

section \<open>Stopping a command\<close>

text \<open>
  C8. Stopping a command whose name is not in the registry of running commands returns
  the state as it was; stopping a registered one takes that name, and no other, out of
  the registry.
\<close>

theorem stop_command_registry:
  "(m_cmd_threads s n = None \<longrightarrow> stop_command n s = s)
   \<and> (m_cmd_threads s n \<noteq> None \<longrightarrow>
        m_cmd_threads (stop_command n s) = (m_cmd_threads s)(n := None)
        \<and> dom (m_cmd_threads (stop_command n s)) = dom (m_cmd_threads s) - {n}
        \<and> (\<forall>k. k \<noteq> n \<longrightarrow> m_cmd_threads (stop_command n s) k = m_cmd_threads s k))"
  by (auto simp: stop_command_def split: option.splits)

theorem stop_command_registry_witness:
  "m_cmd_threads down_running ''up'' = None
   \<and> stop_command ''up'' down_running = down_running
   \<and> m_cmd_threads down_running ''down'' \<noteq> None
   \<and> m_cmd_threads (stop_command ''down'' down_running) = (m_cmd_threads down_running)(''down'' := None)
   \<and> dom (m_cmd_threads (stop_command ''down'' down_running)) = dom (m_cmd_threads down_running) - {''down''}
   \<and> m_cmd_threads (stop_command ''down'' down_running) ''up'' = m_cmd_threads down_running ''up''"
proof -
  have a: "m_cmd_threads down_running ''up'' = None"
    by (simp add: down_running_def initial_executor_def)
  have b: "m_cmd_threads down_running ''down'' \<noteq> None"
    by (simp add: down_running_def initial_executor_def)
  show ?thesis
    using a b stop_command_registry [of down_running "''up''"]
      stop_command_registry [of down_running "''down''"]
    by simp
qed

section \<open>The repeat count\<close>

lemma sync_loop_clamped:
  "r \<le> 0 \<Longrightarrow> sync_loop do_action acts (max r 1) s = run_actions do_action acts s"
  by simp

lemma thread_loop_nonpositive:
  "r \<le> 0 \<Longrightarrow> thread_loop do_action stop_at k acts r s = s"
  by simp

text \<open>
  C5. With \<^verbatim>\<open>repeat\<close> 0 the synchronous command \<^verbatim>\<open>hold\<close> runs its actions once, but the
  thread made for the asynchronous command \<^verbatim>\<open>fire\<close> carries the 0 as it is and its loop
  runs them not at all, whatever the actions do and whenever it is stopped.
\<close>

theorem async_repeat_zero_runs_nothing:
  "do_command do_action ''hold'' fire_hold_loaded = run_actions do_action [1, 2] fire_hold_loaded
   \<and> threads (do_command do_action ''fire'' fire_hold_loaded)
       = [\<lparr>m_actions = [1, 2], m_repeat = 0, m_stop = False\<rparr>]
   \<and> CommandThread_run act stop_at \<lparr>m_actions = [1, 2], m_repeat = 0, m_stop = False\<rparr> x = x"
proof -
  have g1: "get_command_for_executing fire_hold_loaded ''hold''
      = Some \<lparr>name = ''hold'', actions = [1, 2], repeat = 0, async = False\<rparr>"
    unfolding fire_hold_loaded_def fire_hold_profile_def initial_executor_def by code_simp
  have g2: "get_command_for_executing fire_hold_loaded ''fire''
      = Some \<lparr>name = ''fire'', actions = [1, 2], repeat = 0, async = True\<rparr>"
    unfolding fire_hold_loaded_def fire_hold_profile_def initial_executor_def by code_simp
  have t: "threads fire_hold_loaded = []"
    by (simp add: fire_hold_loaded_def initial_executor_def)
  show ?thesis
    by (simp add: do_command_def g1 g2 t CommandThread_run_def)
qed

section \<open>The grammar constraint\<close>

lemma apply_grammar_constraint_cases:
  "fst (apply_grammar_constraint s) = None
   \<and> (recognizer s = Some r \<and> commands_list s \<noteq> []
        \<and> (\<not> has_SetGrammar r \<or> SetGrammar_raises r (commands_list s) \<noteq> None)
      \<longrightarrow> snd (apply_grammar_constraint s) = s\<lparr>grammar_supported := False\<rparr>)
   \<and> (recognizer s = None \<or> commands_list s = []
      \<longrightarrow> snd (apply_grammar_constraint s) = s)"
proof -
  have same: "s\<lparr>recognizer := Some r\<rparr> = s" if "recognizer s = Some r"
    using that by (cases s) simp
  show ?thesis
    by (auto simp: apply_grammar_constraint_def apply_grammar_try_def SetGrammar_def
          show_grammar_not_supported_warning_def same
        split: option.splits exn.splits)
qed

text \<open>
  The invariant holds for the executor as constructed and every operation on the
  recognizer and the flag keeps it; \<^verbatim>\<open>set_language\<close> does when the recognizer it makes is
  of the class and has no grammar yet.
\<close>

lemma initial_executor_flag_inv: "grammar_flag_inv K initial_executor"
  by (simp add: grammar_flag_inv_def initial_executor_def)

lemma apply_grammar_constraint_flag_inv:
  "grammar_flag_inv K s \<Longrightarrow> grammar_flag_inv K (snd (apply_grammar_constraint s))"
  by (auto simp: grammar_flag_inv_def apply_grammar_constraint_def apply_grammar_try_def
        SetGrammar_def show_grammar_not_supported_warning_def
      split: option.splits exn.splits)

lemma stop_flag_inv: "grammar_flag_inv K s \<Longrightarrow> grammar_flag_inv K (snd (stop s))"
  by (auto simp: grammar_flag_inv_def stop_def stop_ptl_listener_def Let_def
      split: option.splits)

lemma start_stream_flag_inv:
  "grammar_flag_inv K s \<Longrightarrow> grammar_flag_inv K (snd (start_stream s))"
  by (auto simp: grammar_flag_inv_def start_stream_def init_stream_def Let_def
      split: option.splits)

lemma stop_command_flag_inv:
  "grammar_flag_inv K s \<Longrightarrow> grammar_flag_inv K (stop_command n s)"
  by (auto simp: grammar_flag_inv_def stop_command_def split: option.splits)

lemma flag_inv_fields:
  "recognizer s' = recognizer s \<Longrightarrow> grammar_supported s' = grammar_supported s
   \<Longrightarrow> grammar_flag_inv K s' = grammar_flag_inv K s"
  by (simp add: grammar_flag_inv_def)

lemma set_profile_flag_inv:
  "grammar_flag_inv K s \<Longrightarrow> grammar_flag_inv K (snd (set_profile p s))"
proof -
  assume inv: "grammar_flag_inv K s"
  obtain e1 s1 where st: "(if listening s then stop s else (None, s)) = (e1, s1)"
    by (cases "if listening s then stop s else (None, s)") auto
  have "s1 = (if listening s then snd (stop s) else s)"
    using st by (auto split: if_splits)
  then have i1: "grammar_flag_inv K s1"
    using inv by (simp add: stop_flag_inv)
  show ?thesis
  proof (cases e1)
    case (Some e)
    then have "set_profile p s = (Some e, s1)"
      using st by (simp add: set_profile_def Let_def)
    with i1 show ?thesis by simp
  next
    case None
    show ?thesis
    proof (cases p)
      case pn: None
      have "set_profile p s = (None, s1\<lparr>m_profile := None, commands_list := []\<rparr>)"
        using st None pn by (simp add: set_profile_def Let_def)
      moreover have "grammar_flag_inv K (s1\<lparr>m_profile := None, commands_list := []\<rparr>)"
        using i1 by (simp add: grammar_flag_inv_def)
      ultimately show ?thesis by simp
    next
      case (Some prof)
      define s4 where "s4 = s1\<lparr>m_profile := Some prof,
          commands_list := sort_commands (profile_variations prof)\<rparr>"
      have i4: "grammar_flag_inv K s4"
        using i1 by (simp add: grammar_flag_inv_def s4_def)
      obtain e5 s5 where ap: "apply_grammar_constraint s4 = (e5, s5)"
        by (cases "apply_grammar_constraint s4") auto
      then have e5: "e5 = None"
        using apply_grammar_constraint_cases [of s4] by simp
      have i5: "grammar_flag_inv K s5"
        using apply_grammar_constraint_flag_inv [OF i4] ap by simp
      have "set_profile p s = (if listening s then start_stream s5 else (None, s5))"
        using st None Some ap e5 by (simp add: set_profile_def Let_def s4_def)
      then show ?thesis
        using i5 start_stream_flag_inv [OF i5] by simp
    qed
  qed
qed

lemma set_language_flag_inv:
  assumes "grammar_flag_inv K s" "has_SetGrammar r = K" "grammar r = None"
  shows "grammar_flag_inv K (snd (set_language (Some r) s))
         \<and> grammar_flag_inv K (snd (set_language None s))"
proof -
  obtain e1 s1 where st: "stop s = (e1, s1)" by (cases "stop s") auto
  have i1: "grammar_flag_inv K s1"
    using stop_flag_inv [OF assms(1)] st by simp
  have i2: "grammar_flag_inv K (s1\<lparr>recognizer := Some r\<rparr>)"
    using i1 assms(2,3) by (simp add: grammar_flag_inv_def)
  have i3: "grammar_flag_inv K (snd (apply_grammar_constraint (s1\<lparr>recognizer := Some r\<rparr>)))"
    using i2 by (rule apply_grammar_constraint_flag_inv)
  show ?thesis
  proof (cases e1)
    case (Some e)
    then show ?thesis using st i1 by (simp add: set_language_def)
  next
    case None
    then show ?thesis using st i1 i2 i3 by (simp add: set_language_def Let_def)
  qed
qed



section \<open>The single-word filter\<close>

lemma listen_callback_ignored:
  "result_string \<noteq> [] \<Longrightarrow> is_ignored_single_word s result_string
   \<Longrightarrow> listen_callback do_action result_string s = (None, s)"
  by (simp add: listen_callback_def)

lemma listen_callback_checked:
  "result_string \<noteq> [] \<Longrightarrow> \<not> is_ignored_single_word s result_string
   \<Longrightarrow> listen_callback do_action result_string s = check_commands do_action result_string s"
  by (simp add: listen_callback_def)

lemma py_split_strip_Nil: "py_split (py_strip []) = []"
  by (simp add: py_split_def py_strip_def)

text \<open>
  A transcript of two or more words is never taken for an ignored single word and is
  handed to \<^verbatim>\<open>check_commands\<close>; with nothing configured the transcript \<^verbatim>\<open>the\<close> is
  suppressed and \<^verbatim>\<open>to the\<close> is not.
\<close>

lemma two_words_never_suppressed:
  "2 \<le> length (py_split (py_strip t)) \<Longrightarrow>
   \<not> is_ignored_single_word s t
   \<and> listen_callback do_action t s = check_commands do_action t s"
proof -
  assume two: "2 \<le> length (py_split (py_strip t))"
  then have "t \<noteq> []" using py_split_strip_Nil by (cases t) auto
  with two show ?thesis
    by (simp add: is_ignored_single_word_def listen_callback_def Let_def)
qed

lemma default_stop_word_examples:
  "is_ignored_single_word (initial_executor :: nat executor) ''the''
   \<and> listen_callback no_action ''the'' initial_executor = (None, initial_executor)
   \<and> \<not> is_ignored_single_word (initial_executor :: nat executor) ''to the''
   \<and> listen_callback no_action ''to the'' initial_executor
       = check_commands no_action ''to the'' initial_executor"
proof -
  have a: "is_ignored_single_word (initial_executor :: nat executor) ''the''"
    unfolding initial_executor_def by code_simp
  have c: "2 \<le> length (py_split (py_strip ''to the''))" by code_simp
  show ?thesis
    using a two_words_never_suppressed [OF c, of "initial_executor :: nat executor" no_action]
    by (simp add: listen_callback_def)
qed

text \<open>
  C6. A transcript that is exactly one word of the stop-word list is to be suppressed
  before dispatch. With the configured list \<^verbatim>\<open>['The']\<close> the transcript \<^verbatim>\<open>The\<close> is one word
  and is an entry of the list, yet \<^verbatim>\<open>_is_ignored_single_word\<close> looks for its lower-cased
  text \<^verbatim>\<open>the\<close> among the entries as configured, answers false, and the callback hands
  the transcript to \<^verbatim>\<open>check_commands\<close>.
\<close>

theorem capital_stop_word_not_suppressed:
  "py_split (py_strip ''The'') = [''The'']
   \<and> ''The'' \<in> set (ignored_words_of capital_config)
   \<and> \<not> is_ignored_single_word capital_config ''The''
   \<and> listen_callback no_action ''The'' capital_config
       = check_commands no_action ''The'' capital_config"
proof -
  have a: "py_split (py_strip ''The'') = [''The'']" by code_simp
  have b: "''The'' \<in> set (ignored_words_of capital_config)"
    unfolding capital_config_def initial_executor_def by code_simp
  have c: "\<not> is_ignored_single_word capital_config ''The''"
    unfolding capital_config_def initial_executor_def by code_simp
  show ?thesis
    using a b c by (simp add: listen_callback_def)
qed

section \<open>The command list after \<^verbatim>\<open>set_profile\<close>\<close>

lemma apply_grammar_constraint_result:
  "apply_grammar_constraint s = (e, s') \<Longrightarrow>
   e = None \<and> commands_list s' = commands_list s \<and> listening s' = listening s
   \<and> m_stream s' = m_stream s \<and> (recognizer s' = None \<longleftrightarrow> recognizer s = None)"
  by (auto simp: apply_grammar_constraint_def apply_grammar_try_def SetGrammar_def
        show_grammar_not_supported_warning_def
        split: option.splits exn.splits if_splits)

lemma start_stream_keeps:
  "commands_list (snd (start_stream s)) = commands_list s"
  "listening (snd (start_stream s)) = listening s"
  "recognizer (snd (start_stream s)) = recognizer s"
  by (auto simp: start_stream_def init_stream_def Let_def)


lemma start_stream_no_recognizer:
  "recognizer s = None \<Longrightarrow> m_stream s = None \<Longrightarrow> m_stream (snd (start_stream s)) = None"
  by (simp add: start_stream_def init_stream_def)

text \<open>
  Past the \<^verbatim>\<open>_stop\<close> at its start, \<^verbatim>\<open>set_profile\<close> leaves the sorted expansions of the
  profile in \<^verbatim>\<open>commands_list\<close>, whatever the list was before.
\<close>

lemma set_profile_commands_list:
  "stream_has_recognizer s \<Longrightarrow>
   commands_list (snd (set_profile p s))
     = (case p of None \<Rightarrow> [] | Some prof \<Rightarrow> sort_commands (profile_variations prof))"
  by (auto simp: set_profile_def Let_def start_stream_keeps stop_def stop_ptl_listener_def
        stream_has_recognizer_def
      split: option.splits prod.splits if_splits
      dest!: apply_grammar_constraint_result)

lemma set_profile_has_recognizer:
  "stream_has_recognizer s \<Longrightarrow> stream_has_recognizer (snd (set_profile p s))"
  unfolding stream_has_recognizer_def
  by (auto simp: set_profile_def Let_def stop_def stop_ptl_listener_def start_stream_keeps
        start_stream_no_recognizer
      split: option.splits prod.splits if_splits
      dest!: apply_grammar_constraint_result)

lemma initial_executor_has_recognizer: "stream_has_recognizer initial_executor"
  by (simp add: stream_has_recognizer_def initial_executor_def)

text \<open>
  C9. Calling \<^verbatim>\<open>set_profile\<close> a second time with the same profile leaves the same phrase
  list, the same phrases in the same order, as the first call did. The executor is one
  that keeps its invariant, a stream only with a recognizer.
\<close>

theorem set_profile_idempotent:
  "stream_has_recognizer s \<Longrightarrow>
   commands_list (snd (set_profile p (snd (set_profile p s))))
     = commands_list (snd (set_profile p s))"
  by (simp add: set_profile_commands_list set_profile_has_recognizer)

lemma go_profile_listening:
  "commands_list (snd (set_profile (Some go_profile) listening_executor)) = [''go home'', ''go'']"
  unfolding go_profile_def listening_executor_def initial_executor_def static_recognizer_def
  by code_simp

theorem set_profile_idempotent_witness:
  "stream_has_recognizer listening_executor
   \<and> commands_list (snd (set_profile (Some go_profile)
         (snd (set_profile (Some go_profile) listening_executor)))) = [''go home'', ''go'']"
proof -
  have a: "stream_has_recognizer listening_executor"
    by (simp add: stream_has_recognizer_def listening_executor_def)
  show ?thesis
    using a set_profile_idempotent [OF a, of "Some go_profile"] go_profile_listening
    by simp
qed

lemma twice_profile_list:
  "commands_list (snd (set_profile (Some twice_profile) initial_executor)) = [''go'', ''go'']"
  unfolding twice_profile_def initial_executor_def by code_simp

lemma go_profile_variations: "profile_variations go_profile = [''go'', ''go home'']"
  unfolding go_profile_def by code_simp

text \<open>
  C4, as the code has it. Nothing removes duplicates: the phrase list holds every phrase
  the expansion of every comma-alternate of every command gives, as many times as it is
  given, so it is free of duplicates exactly when no phrase is generated twice. The
  executor is one that keeps its invariant, a stream only with a recognizer.
\<close>

theorem command_list_multiset:
  "stream_has_recognizer s \<Longrightarrow>
   mset (commands_list (snd (set_profile (Some p) s))) = mset (profile_variations p)
   \<and> (distinct (commands_list (snd (set_profile (Some p) s)))
        \<longleftrightarrow> distinct (profile_variations p))"
  by (simp add: set_profile_commands_list sort_commands_def)

theorem command_list_multiset_witness:
  "stream_has_recognizer (initial_executor :: nat executor)
   \<and> mset (commands_list (snd (set_profile (Some go_profile) initial_executor)))
       = mset [''go'', ''go home'']
   \<and> distinct (commands_list (snd (set_profile (Some go_profile) initial_executor)))"
  using command_list_multiset [OF initial_executor_has_recognizer, of go_profile]
    initial_executor_has_recognizer [where ?'a = nat]
  by (simp add: go_profile_variations)

text \<open>
  The list is not always free of duplicates: for a command named \<^verbatim>\<open>go, go\<close> both comma-alternates
  expand to \<^verbatim>\<open>go\<close> and the list holds it twice.
\<close>

theorem duplicate_phrase_counterexample:
  "\<not> distinct (commands_list (snd (set_profile (Some twice_profile) initial_executor)))"
  by (simp add: twice_profile_list)

section \<open>Looking a transcript up\<close>

lemma take_prefix: "take (length a) b = a \<longleftrightarrow> (\<exists>post. b = a @ post)"
  by (metis append_eq_conv_conj append_take_drop_id)

lemma py_in_iff: "py_in a b \<longleftrightarrow> is_substring a b"
proof (induction b)
  case Nil
  then show ?case by (auto simp: is_substring_def)
next
  case (Cons c cs)
  have "is_substring a (c # cs) \<longleftrightarrow> (\<exists>post. c # cs = a @ post) \<or> is_substring a cs"
  proof
    assume "is_substring a (c # cs)"
    then obtain pre post where e: "c # cs = pre @ a @ post"
      unfolding is_substring_def by blast
    show "(\<exists>post. c # cs = a @ post) \<or> is_substring a cs"
    proof (cases pre)
      case Nil
      with e show ?thesis by auto
    next
      case (Cons x pre')
      with e have "cs = pre' @ a @ post" by simp
      then show ?thesis unfolding is_substring_def by blast
    qed
  next
    assume "(\<exists>post. c # cs = a @ post) \<or> is_substring a cs"
    then show "is_substring a (c # cs)"
    proof
      assume "\<exists>post. c # cs = a @ post"
      then obtain post where "c # cs = [] @ a @ post" by auto
      then show ?thesis unfolding is_substring_def by blast
    next
      assume "is_substring a cs"
      then obtain pre post where "cs = pre @ a @ post"
        unfolding is_substring_def by blast
      then have "c # cs = (c # pre) @ a @ post" by simp
      then show ?thesis unfolding is_substring_def by blast
    qed
  qed
  then show ?case using Cons take_prefix[of a "c # cs"] by simp
qed

lemma first_match_None: "first_match cl t = None \<longleftrightarrow> (\<forall>c \<in> set cl. \<not> py_in c t)"
  by (induction cl) auto

lemma first_match_Some:
  "first_match cl t = Some c \<Longrightarrow>
   \<exists>pre post. cl = pre @ c # post \<and> py_in c t \<and> (\<forall>x \<in> set pre. \<not> py_in x t)"
proof (induction cl)
  case Nil
  then show ?case by simp
next
  case (Cons x xs)
  show ?case
  proof (cases "py_in x t")
    case True
    with Cons.prems have "x = c" by simp
    with True have "x # xs = [] @ c # xs \<and> py_in c t \<and> (\<forall>y \<in> set []. \<not> py_in y t)" by simp
    then show ?thesis by blast
  next
    case False
    with Cons obtain pre post where "xs = pre @ c # post" "py_in c t" "\<forall>y \<in> set pre. \<not> py_in y t"
      by auto
    with False have "x # xs = (x # pre) @ c # post \<and> py_in c t \<and> (\<forall>y \<in> set (x # pre). \<not> py_in y t)"
      by simp
    then show ?thesis by blast
  qed
qed

lemma sort_commands_sorted: "sorted (map (\<lambda>c. - int (length c)) (sort_commands cl))"
  by (simp add: sort_commands_def)

lemma first_match_longest:
  assumes "sorted (map (\<lambda>c. - int (length c)) cl)" "first_match cl t = Some c"
    "c' \<in> set cl" "py_in c' t"
  shows "length c' \<le> length c"
proof -
  obtain pre post where cl: "cl = pre @ c # post" and pre: "\<forall>x \<in> set pre. \<not> py_in x t"
    using first_match_Some[OF assms(2)] by blast
  from assms(3,4) pre cl have "c' = c \<or> c' \<in> set post" by auto
  moreover have "\<forall>x \<in> set post. - int (length c) \<le> - int (length x)"
    using assms(1) unfolding cl by (auto simp: sorted_append)
  ultimately show ?thesis by auto
qed

lemma set_profile_keeps_recognizer:
  "recognizer s \<noteq> None \<Longrightarrow> recognizer (snd (set_profile p s)) \<noteq> None"
  by (auto simp: set_profile_def Let_def stop_def stop_ptl_listener_def start_stream_keeps
      split: option.splits prod.splits if_splits
      dest!: apply_grammar_constraint_result)

lemma go_profile_owner:
  "get_command_for_executing (snd (set_profile (Some go_profile) listening_executor)) ''go home''
     = Some \<lparr>name = ''go home'', actions = [2], repeat = 1, async = False\<rparr>"
  unfolding go_profile_def listening_executor_def initial_executor_def static_recognizer_def
  by code_simp

lemma go_home_first:
  "first_match [''go home'', ''go''] ''please go home now'' = Some ''go home''"
  by code_simp

lemma go_in_transcript: "is_substring ''go'' ''please go home now''"
proof -
  have "py_in ''go'' ''please go home now''" by code_simp
  then show ?thesis by (simp only: py_in_iff)
qed

text \<open>
  C2. After \<^verbatim>\<open>set_profile\<close> the phrases stand longest first. \<^verbatim>\<open>check_commands\<close> takes the
  first phrase of the list that occurs in the transcript as a substring: that phrase is
  in the list, occurs in the transcript, and no phrase of the list that occurs in the
  transcript is longer; it alone is passed to \<^verbatim>\<open>_do_command\<close>, and when no phrase occurs
  nothing is. With the commands \<^verbatim>\<open>go\<close> and \<^verbatim>\<open>go home\<close> and the transcript
  \<^verbatim>\<open>please go home now\<close> the phrase found is \<^verbatim>\<open>go home\<close>, whose command is the one named so.
  The executor is one that keeps its invariant, a stream only with a recognizer.
\<close>

theorem check_commands_longest_match:
  "stream_has_recognizer s \<Longrightarrow> s' = snd (set_profile (Some p) s) \<Longrightarrow>
   sorted (map (\<lambda>c. - int (length c)) (commands_list s'))
   \<and> (first_match (commands_list s') t = None
        \<longleftrightarrow> (\<forall>c \<in> set (commands_list s'). \<not> is_substring c t))
   \<and> (first_match (commands_list s') t = None
        \<longrightarrow> check_commands do_action t s' = (None, s'))
   \<and> (\<forall>c. first_match (commands_list s') t = Some c \<longrightarrow>
          c \<in> set (commands_list s') \<and> is_substring c t
          \<and> (\<forall>c' \<in> set (commands_list s'). is_substring c' t \<longrightarrow> length c' \<le> length c)
          \<and> (recognizer s' \<noteq> None
               \<longrightarrow> check_commands do_action t s' = (None, do_command do_action c s')))
   \<and> first_match (commands_list (snd (set_profile (Some go_profile) listening_executor)))
         ''please go home now'' = Some ''go home''
   \<and> get_command_for_executing (snd (set_profile (Some go_profile) listening_executor)) ''go home''
       = Some \<lparr>name = ''go home'', actions = [2], repeat = 1, async = False\<rparr>"
proof -
  assume inv: "stream_has_recognizer s" and s': "s' = snd (set_profile (Some p) s)"
  have srt: "sorted (map (\<lambda>c. - int (length c)) (commands_list s'))"
    using inv by (simp add: s' set_profile_commands_list sort_commands_sorted)
  have none: "first_match (commands_list s') t = None
        \<longleftrightarrow> (\<forall>c \<in> set (commands_list s'). \<not> is_substring c t)"
    by (simp add: first_match_None py_in_iff)
  have chk0: "first_match (commands_list s') t = None
        \<longrightarrow> check_commands do_action t s' = (None, s')"
    by (simp add: check_commands_def)
  have some: "c \<in> set (commands_list s') \<and> is_substring c t
          \<and> (\<forall>c' \<in> set (commands_list s'). is_substring c' t \<longrightarrow> length c' \<le> length c)
          \<and> (recognizer s' \<noteq> None
               \<longrightarrow> check_commands do_action t s' = (None, do_command do_action c s'))"
    if m: "first_match (commands_list s') t = Some c" for c
  proof -
    obtain pre post where "commands_list s' = pre @ c # post" "py_in c t"
      using first_match_Some [OF m] by blast
    then have "c \<in> set (commands_list s')" "is_substring c t"
      by (simp_all add: py_in_iff)
    moreover have "\<forall>c' \<in> set (commands_list s'). is_substring c' t \<longrightarrow> length c' \<le> length c"
      using first_match_longest [OF srt m] by (simp add: py_in_iff)
    moreover have "recognizer s' \<noteq> None
        \<longrightarrow> check_commands do_action t s' = (None, do_command do_action c s')"
      using m by (simp add: check_commands_def)
    ultimately show ?thesis by blast
  qed
  have ex: "first_match (commands_list (snd (set_profile (Some go_profile) listening_executor)))
         ''please go home now'' = Some ''go home''"
    by (simp only: go_profile_listening go_home_first)
  show ?thesis
    using srt none chk0 some ex go_profile_owner by blast
qed

lemma stop_matches_nothing: "first_match [''go home'', ''go''] ''stop'' = None"
  by code_simp

theorem check_commands_longest_match_witness:
  "stream_has_recognizer listening_executor
   \<and> first_match (commands_list (snd (set_profile (Some go_profile) listening_executor)))
        ''please go home now'' = Some ''go home''
   \<and> ''go'' \<in> set (commands_list (snd (set_profile (Some go_profile) listening_executor)))
   \<and> is_substring ''go'' ''please go home now''
   \<and> length ''go'' \<le> length ''go home''
   \<and> is_substring ''go home'' ''please go home now''
   \<and> recognizer (snd (set_profile (Some go_profile) listening_executor)) \<noteq> None
   \<and> check_commands no_action ''please go home now''
        (snd (set_profile (Some go_profile) listening_executor))
       = (None, do_command no_action ''go home''
                  (snd (set_profile (Some go_profile) listening_executor)))
   \<and> first_match (commands_list (snd (set_profile (Some go_profile) listening_executor)))
        ''stop'' = None
   \<and> check_commands no_action ''stop'' (snd (set_profile (Some go_profile) listening_executor))
       = (None, snd (set_profile (Some go_profile) listening_executor))"
proof -
  have a: "stream_has_recognizer listening_executor"
    by (simp add: stream_has_recognizer_def listening_executor_def)
  have r: "recognizer (snd (set_profile (Some go_profile) listening_executor)) \<noteq> None"
    by (rule set_profile_keeps_recognizer) (simp add: listening_executor_def)
  have m: "first_match (commands_list (snd (set_profile (Some go_profile) listening_executor)))
        ''please go home now'' = Some ''go home''"
    by (simp only: go_profile_listening go_home_first)
  have m0: "first_match (commands_list (snd (set_profile (Some go_profile) listening_executor)))
        ''stop'' = None"
    by (simp only: go_profile_listening stop_matches_nothing)
  have g: "''go'' \<in> set (commands_list (snd (set_profile (Some go_profile) listening_executor)))"
    by (simp only: go_profile_listening list.set insert_iff simp_thms)
  note t = check_commands_longest_match [OF a refl, of go_profile "''please go home now''" no_action]
  note t0 = check_commands_longest_match [OF a refl, of go_profile "''stop''" no_action]
  note some = t [THEN conjunct2, THEN conjunct2, THEN conjunct2, THEN conjunct1, THEN spec,
      THEN mp, OF m]
  have sub: "is_substring ''go home'' ''please go home now''"
    by (rule some [THEN conjunct2, THEN conjunct1])
  have len: "length ''go'' \<le> length ''go home''"
    by (rule some [THEN conjunct2, THEN conjunct2, THEN conjunct1, THEN bspec, OF g, THEN mp,
          OF go_in_transcript])
  have chk: "check_commands no_action ''please go home now''
        (snd (set_profile (Some go_profile) listening_executor))
       = (None, do_command no_action ''go home''
                  (snd (set_profile (Some go_profile) listening_executor)))"
    by (rule some [THEN conjunct2, THEN conjunct2, THEN conjunct2, THEN mp, OF r])
  have chk0: "check_commands no_action ''stop''
        (snd (set_profile (Some go_profile) listening_executor))
       = (None, snd (set_profile (Some go_profile) listening_executor))"
    by (rule t0 [THEN conjunct2, THEN conjunct2, THEN conjunct1, THEN mp, OF m0])
  show ?thesis
    by (intro conjI) (rule a m g go_in_transcript len sub r chk m0 chk0)+
qed

section \<open>Characters and shape of the primitives' results\<close>






















section \<open>Characters and shape of the expansions\<close>












section \<open>The phrases of the command list\<close>










end
